theory Spec2Isabelle
  imports Main
begin

section \<open>The stream model\<close>

text \<open>
  The header \<^verbatim>\<open>ask_for.h\<close> reads from \<^verbatim>\<open>std::cin\<close> and an
  \<^verbatim>\<open>std::istringstream\<close>, and steers on the streams' state flags. A stream is its
  unread characters together with its three flags. \<^verbatim>\<open>fail()\<close> answers for
  \<^verbatim>\<open>failbit\<close> and \<^verbatim>\<open>badbit\<close> alike, as in the standard library.
\<close>

record iostate =
  badbit :: bool
  eofbit :: bool
  failbit :: bool

definition goodbit :: iostate where
  "goodbit = \<lparr>badbit = False, eofbit = False, failbit = False\<rparr>"

definition ios_eofbit :: iostate where
  "ios_eofbit = \<lparr>badbit = False, eofbit = True, failbit = False\<rparr>"

definition ios_failbit :: iostate where
  "ios_failbit = \<lparr>badbit = False, eofbit = False, failbit = True\<rparr>"

definition ios_or :: "iostate \<Rightarrow> iostate \<Rightarrow> iostate" where
  "ios_or a b = \<lparr>badbit = (badbit a \<or> badbit b), eofbit = (eofbit a \<or> eofbit b),
                 failbit = (failbit a \<or> failbit b)\<rparr>"

definition ios_xor :: "iostate \<Rightarrow> iostate \<Rightarrow> iostate" where
  "ios_xor a b = \<lparr>badbit = (badbit a \<noteq> badbit b), eofbit = (eofbit a \<noteq> eofbit b),
                  failbit = (failbit a \<noteq> failbit b)\<rparr>"

record istream =
  rdbuf :: string
  rdstate :: iostate

definition good :: "istream \<Rightarrow> bool" where
  "good s = (rdstate s = goodbit)"

definition eof :: "istream \<Rightarrow> bool" where
  "eof s = eofbit (rdstate s)"

definition fail :: "istream \<Rightarrow> bool" where
  "fail s = (failbit (rdstate s) \<or> badbit (rdstate s))"

definition bad :: "istream \<Rightarrow> bool" where
  "bad s = badbit (rdstate s)"

definition clear :: "iostate \<Rightarrow> istream \<Rightarrow> istream" where
  "clear f s = s\<lparr>rdstate := f\<rparr>"

definition setstate :: "iostate \<Rightarrow> istream \<Rightarrow> istream" where
  "setstate f s = clear (ios_or (rdstate s) f) s"

text \<open>Number of characters left in the get area of a string buffer.\<close>

definition in_avail :: "istream \<Rightarrow> nat" where
  "in_avail s = length (rdbuf s)"

definition istringstream :: "string \<Rightarrow> istream" where
  "istringstream s = \<lparr>rdbuf = s, rdstate = goodbit\<rparr>"

definition newline :: char where
  "newline = CHR 0x0A"

text \<open>Whitespace of the classic locale: space, tab, line feed, vertical tab, form feed,
  carriage return.\<close>

definition isspace :: "char \<Rightarrow> bool" where
  "isspace c = (c = CHR 0x20 \<or> c = CHR 0x09 \<or> c = CHR 0x0A \<or> c = CHR 0x0B
                \<or> c = CHR 0x0C \<or> c = CHR 0x0D)"

definition isdigit :: "char \<Rightarrow> bool" where
  "isdigit c = (48 \<le> (of_char c :: nat) \<and> (of_char c :: nat) \<le> 57)"

definition digit_value :: "char \<Rightarrow> int" where
  "digit_value c = int (of_char c) - 48"

definition digits_value :: "string \<Rightarrow> int" where
  "digits_value ds = foldl (\<lambda>acc c. 10 * acc + digit_value c) 0 ds"

definition INT_MAX :: int where
  "INT_MAX = 2147483647"

definition INT_MIN :: int where
  "INT_MIN = - 2147483648"

subsection \<open>std::getline\<close>

text \<open>
  \<^verbatim>\<open>std::getline(is, s)\<close> on a stream that is not good sets \<^verbatim>\<open>failbit\<close> and
  reads nothing. Otherwise it takes characters up to the line feed, which it removes from
  the stream and does not store; running into the end of the input sets
  \<^verbatim>\<open>eofbit\<close>, and \<^verbatim>\<open>failbit\<close> too when not one character was taken.
\<close>

definition getline :: "istream \<Rightarrow> istream \<times> string" where
  "getline is =
     (if \<not> good is then (setstate ios_failbit is, [])
      else
        (let s = takeWhile (\<lambda>c. c \<noteq> newline) (rdbuf is) in
         case dropWhile (\<lambda>c. c \<noteq> newline) (rdbuf is) of
           [] \<Rightarrow> (setstate (if s = [] then ios_or ios_eofbit ios_failbit else ios_eofbit)
                    (is\<lparr>rdbuf := []\<rparr>), s)
         | d # rest \<Rightarrow> (is\<lparr>rdbuf := rest\<rparr>, s)))"

subsection \<open>Formatted extraction of the built-in types\<close>

text \<open>
  Every formatted extraction starts with the sentry: a stream that is not good gets
  \<^verbatim>\<open>failbit\<close> and nothing is read; otherwise leading whitespace is skipped, and
  reaching the end of the input there sets \<^verbatim>\<open>eofbit\<close> and \<^verbatim>\<open>failbit\<close>.
\<close>

definition sentry :: "istream \<Rightarrow> bool \<times> istream" where
  "sentry s =
     (if \<not> good s then (False, setstate ios_failbit s)
      else
        (case dropWhile isspace (rdbuf s) of
           [] \<Rightarrow> (False, setstate (ios_or ios_eofbit ios_failbit) (s\<lparr>rdbuf := []\<rparr>))
         | c # cs \<Rightarrow> (True, s\<lparr>rdbuf := c # cs\<rparr>)))"

datatype scalar_ty = IntT | StringT | CharT

datatype scalar_val = IntV int | StringV string | CharV char

text \<open>\<^verbatim>\<open>is >> std::string\<close>: the characters up to the next whitespace;
  \<^verbatim>\<open>eofbit\<close> when the input ends first.\<close>

definition extract_string :: "scalar_val \<Rightarrow> istream \<Rightarrow> istream \<times> scalar_val" where
  "extract_string t s =
     (case sentry s of
        (False, s') \<Rightarrow> (s', t)
      | (True, s') \<Rightarrow>
          (let tok = takeWhile (\<lambda>c. \<not> isspace c) (rdbuf s');
               rest = dropWhile (\<lambda>c. \<not> isspace c) (rdbuf s');
               s'' = s'\<lparr>rdbuf := rest\<rparr>
           in (if rest = [] then setstate ios_eofbit s'' else s'', StringV tok)))"

text \<open>\<^verbatim>\<open>is >> char\<close>: one character; the end of the input is not looked at.\<close>

definition extract_char :: "scalar_val \<Rightarrow> istream \<Rightarrow> istream \<times> scalar_val" where
  "extract_char t s =
     (case sentry s of
        (False, s') \<Rightarrow> (s', t)
      | (True, s') \<Rightarrow>
          (case rdbuf s' of
             [] \<Rightarrow> (setstate (ios_or ios_eofbit ios_failbit) s', t)
           | c # cs \<Rightarrow> (s'\<lparr>rdbuf := cs\<rparr>, CharV c)))"

text \<open>
  \<^verbatim>\<open>is >> int\<close> in the default decimal base: an optional sign, then the decimal
  digits that follow. No digit is a failure that stores 0; a value outside of
  \<^verbatim>\<open>int\<close> is a failure that stores the nearest limit; the digits ending with the
  input set \<^verbatim>\<open>eofbit\<close>.
\<close>

definition extract_int :: "scalar_val \<Rightarrow> istream \<Rightarrow> istream \<times> scalar_val" where
  "extract_int t s =
     (case sentry s of
        (False, s') \<Rightarrow> (s', t)
      | (True, s') \<Rightarrow>
          (let b = rdbuf s';
               negative = (take 1 b = ''-'');
               b1 = (if take 1 b = ''-'' \<or> take 1 b = ''+'' then drop 1 b else b);
               ds = takeWhile isdigit b1;
               rest = dropWhile isdigit b1;
               v = (if negative then - digits_value ds else digits_value ds);
               s1 = s'\<lparr>rdbuf := rest\<rparr>;
               s2 = (if rest = [] then setstate ios_eofbit s1 else s1)
           in if ds = [] then (setstate ios_failbit s2, IntV 0)
              else if v < INT_MIN then (setstate ios_failbit s2, IntV INT_MIN)
              else if INT_MAX < v then (setstate ios_failbit s2, IntV INT_MAX)
              else (s2, IntV v)))"

fun extract_scalar :: "scalar_ty \<Rightarrow> scalar_val \<Rightarrow> istream \<Rightarrow> istream \<times> scalar_val" where
  "extract_scalar IntT t s = extract_int t s"
| "extract_scalar StringT t s = extract_string t s"
| "extract_scalar CharT t s = extract_char t s"

text \<open>A default-constructed object. A plain \<^verbatim>\<open>int t;\<close> or \<^verbatim>\<open>char t;\<close> holds
  no determined value; the code never reads one before an extraction has written it, and
  the model takes the value-initialised one, which the tuple form has.\<close>

fun default_scalar :: "scalar_ty \<Rightarrow> scalar_val" where
  "default_scalar IntT = IntV 0"
| "default_scalar StringT = StringV []"
| "default_scalar CharT = CharV (CHR 0x00)"

subsection \<open>The requested objects\<close>

text \<open>
  The objects a request fills are variables of a scalar type, of
  \<^verbatim>\<open>std::array<T, N>\<close> or of \<^verbatim>\<open>std::vector<T>\<close> with a scalar \<^verbatim>\<open>T\<close>.
  An object carries its static type, which selects the \<^verbatim>\<open>operator>>\<close> that fills
  it, and its current value; an array's \<^verbatim>\<open>N\<close> is the number of its elements.
\<close>

datatype ty = ScalarT scalar_ty | ArrayT scalar_ty nat | VectorT scalar_ty

datatype obj =
  Scalar scalar_ty scalar_val
  | Array scalar_ty "scalar_val list"
  | Vector scalar_ty "scalar_val list"

fun default_obj :: "ty \<Rightarrow> obj" where
  "default_obj (ScalarT T) = Scalar T (default_scalar T)"
| "default_obj (ArrayT T N) = Array T (replicate N (default_scalar T))"
| "default_obj (VectorT T) = Vector T []"

section \<open>The header's functions\<close>

text \<open>\<^verbatim>\<open>input_stream\<close>: the elements of the array are extracted in index order,
  whatever the state the stream is left in by the ones before.\<close>

fun input_stream :: "scalar_ty \<Rightarrow> istream \<Rightarrow> scalar_val list \<Rightarrow> istream \<times> scalar_val list" where
  "input_stream T is [] = (is, [])"
| "input_stream T is (x # xs) =
     (case extract_scalar T x is of
        (is', x') \<Rightarrow> (case input_stream T is' xs of (is'', xs') \<Rightarrow> (is'', x' # xs')))"

text \<open>The \<^verbatim>\<open>while (true)\<close> loop of \<^verbatim>\<open>operator>>\<close> for a vector: a fresh
  \<^verbatim>\<open>T t\<close> is extracted and pushed back until an extraction fails.\<close>

function vector_loop :: "scalar_ty \<Rightarrow> istream \<Rightarrow> scalar_val list \<Rightarrow> istream \<times> scalar_val list" where
  "vector_loop T is vector =
     (case extract_scalar T (default_scalar T) is of
        (is', t) \<Rightarrow> if fail is' then (is', vector) else vector_loop T is' (vector @ [t]))"
  by pat_completeness auto

lemma sentry_True:
  assumes "sentry s = (True, s')"
  shows "good s" and "rdstate s' = rdstate s" and "rdbuf s' = dropWhile isspace (rdbuf s)"
    and "rdbuf s' \<noteq> []" and "\<not> isspace (hd (rdbuf s'))"
proof -
  from assms show g: "good s"
    by (auto simp: sentry_def split: if_splits list.splits)
  from assms g obtain c cs where d: "dropWhile isspace (rdbuf s) = c # cs" and s': "s' = s\<lparr>rdbuf := c # cs\<rparr>"
    by (auto simp: sentry_def split: if_splits list.splits)
  from s' show "rdstate s' = rdstate s" by simp
  from s' d show "rdbuf s' = dropWhile isspace (rdbuf s)" by simp
  from s' show "rdbuf s' \<noteq> []" by simp
  from d have "\<not> isspace c" by (metis hd_dropWhile list.sel(1) list.distinct(1))
  with s' show "\<not> isspace (hd (rdbuf s'))" by simp
qed

lemma sentry_False: "sentry s = (False, s') \<Longrightarrow> fail s'"
  by (auto simp: sentry_def fail_def setstate_def clear_def ios_or_def ios_failbit_def ios_eofbit_def
      split: if_splits list.splits)

lemma fail_setstate_failbit [simp]: "fail (setstate ios_failbit s)"
  by (simp add: fail_def setstate_def clear_def ios_or_def ios_failbit_def)

lemma rdbuf_setstate [simp]: "rdbuf (setstate f s) = rdbuf s"
  by (simp add: setstate_def clear_def)

lemma rdbuf_clear [simp]: "rdbuf (clear f s) = rdbuf s"
  by (simp add: clear_def)

lemma rdstate_clear [simp]: "rdstate (clear f s) = f"
  by (simp add: clear_def)

lemma extract_string_consumes:
  assumes "extract_string t s = (s', t')" and "\<not> fail s'"
  shows "length (rdbuf s') < length (rdbuf s)"
proof (cases "sentry s")
  case (Pair ok s1)
  show ?thesis
  proof (cases ok)
    case False
    with Pair assms show ?thesis by (auto simp: extract_string_def dest: sentry_False)
  next
    case True
    from Pair True have sp: "sentry s = (True, s1)" by simp
    note st = sentry_True [OF sp]
    from st(4) obtain c cs where b: "rdbuf s1 = c # cs" by (cases "rdbuf s1") auto
    with st(5) have nsp: "\<not> isspace c" by simp
    from Pair True assms(1) have "rdbuf s' = dropWhile (\<lambda>c. \<not> isspace c) (rdbuf s1)"
      by (auto simp: extract_string_def Let_def split: if_splits)
    with b nsp have "length (rdbuf s') \<le> length cs"
      by (simp add: length_dropWhile_le)
    also have "length cs < length (rdbuf s1)" using b by simp
    also have "length (rdbuf s1) \<le> length (rdbuf s)"
      using st(3) by (simp add: length_dropWhile_le)
    finally show ?thesis .
  qed
qed

lemma extract_char_consumes:
  assumes "extract_char t s = (s', t')" and "\<not> fail s'"
  shows "length (rdbuf s') < length (rdbuf s)"
proof (cases "sentry s")
  case (Pair ok s1)
  show ?thesis
  proof (cases ok)
    case False
    with Pair assms show ?thesis by (auto simp: extract_char_def dest: sentry_False)
  next
    case True
    from Pair True have sp: "sentry s = (True, s1)" by simp
    note st = sentry_True [OF sp]
    from st(4) obtain c cs where b: "rdbuf s1 = c # cs" by (cases "rdbuf s1") auto
    from Pair True assms(1) b have "rdbuf s' = cs"
      by (auto simp: extract_char_def)
    then have "length (rdbuf s') < length (rdbuf s1)" using b by simp
    also have "length (rdbuf s1) \<le> length (rdbuf s)"
      using st(3) by (simp add: length_dropWhile_le)
    finally show ?thesis .
  qed
qed

lemma extract_int_consumes:
  assumes "extract_int t s = (s', t')" and "\<not> fail s'"
  shows "length (rdbuf s') < length (rdbuf s)"
proof (cases "sentry s")
  case (Pair ok s1)
  show ?thesis
  proof (cases ok)
    case False
    with Pair assms show ?thesis by (auto simp: extract_int_def dest: sentry_False)
  next
    case True
    from Pair True have sp: "sentry s = (True, s1)" by simp
    note st = sentry_True [OF sp]
    define b1 where "b1 = (if take 1 (rdbuf s1) = ''-'' \<or> take 1 (rdbuf s1) = ''+''
                           then drop 1 (rdbuf s1) else rdbuf s1)"
    from Pair True assms have ds: "takeWhile isdigit b1 \<noteq> []"
      by (auto simp: extract_int_def Let_def b1_def split: if_splits)
    from Pair True assms(1) have "rdbuf s' = dropWhile isdigit b1"
      by (auto simp: extract_int_def Let_def b1_def split: if_splits)
    moreover have "length (takeWhile isdigit b1) + length (dropWhile isdigit b1) = length b1"
      by (metis length_append takeWhile_dropWhile_id)
    ultimately have "length (rdbuf s') < length b1" using ds by (cases "takeWhile isdigit b1") auto
    also have "length b1 \<le> length (rdbuf s1)" by (simp add: b1_def)
    also have "length (rdbuf s1) \<le> length (rdbuf s)"
      using st(3) by (simp add: length_dropWhile_le)
    finally show ?thesis .
  qed
qed

lemma extract_scalar_consumes:
  "extract_scalar T t s = (s', t') \<Longrightarrow> \<not> fail s' \<Longrightarrow> length (rdbuf s') < length (rdbuf s)"
  by (cases T) (auto dest: extract_int_consumes extract_string_consumes extract_char_consumes)

termination vector_loop
  by (relation "measure (\<lambda>(T, is, vector). length (rdbuf is))")
     (auto dest: extract_scalar_consumes [OF sym])

text \<open>\<^verbatim>\<open>operator>>\<close> for a vector: the loop, then the failure that ended it is taken
  back with \<^verbatim>\<open>is.clear(is.rdstate() ^ std::ios_base::failbit)\<close>.\<close>

definition extract_vector :: "scalar_ty \<Rightarrow> istream \<Rightarrow> scalar_val list \<Rightarrow> istream \<times> scalar_val list" where
  "extract_vector T is vector =
     (case vector_loop T is vector of
        (is', vector') \<Rightarrow>
          ((if fail is' then clear (ios_xor (rdstate is') ios_failbit) is' else is'), vector'))"

text \<open>\<^verbatim>\<open>ss >> t\<close>, resolved by the static type of \<^verbatim>\<open>t\<close>.\<close>

fun extract_obj :: "obj \<Rightarrow> istream \<Rightarrow> istream \<times> obj" where
  "extract_obj (Scalar T t) is = (case extract_scalar T t is of (is', t') \<Rightarrow> (is', Scalar T t'))"
| "extract_obj (Array T array) is = (case input_stream T is array of (is', a') \<Rightarrow> (is', Array T a'))"
| "extract_obj (Vector T vector) is = (case extract_vector T is vector of (is', v') \<Rightarrow> (is', Vector T v'))"

text \<open>The pack expansion \<^verbatim>\<open>(ss >> t, 0)...\<close>: every object in turn, left to right.\<close>

fun fill :: "obj list \<Rightarrow> istream \<Rightarrow> istream \<times> obj list" where
  "fill [] ss = (ss, [])"
| "fill (t # ts) ss =
     (case extract_obj t ss of
        (ss', t') \<Rightarrow> (case fill ts ss' of (ss'', ts') \<Rightarrow> (ss'', t' # ts')))"

datatype exn = Eof_exception

fun is_string :: "obj \<Rightarrow> bool" where
  "is_string (Scalar StringT t) = True"
| "is_string t = False"

text \<open>The lambda of \<^verbatim>\<open>get_line_fill\<close>: one object only, the line empty, the object a
  \<^verbatim>\<open>std::string\<close>. (The lambda wants one argument at least: there is no request
  without an object.)\<close>

fun single_string_empty :: "string \<Rightarrow> obj list \<Rightarrow> bool" where
  "single_string_empty s (a # b) = (length b = 0 \<and> s = [] \<and> is_string a)"
| "single_string_empty s [] = False"

text \<open>\<^verbatim>\<open>get_line_fill\<close> on \<^verbatim>\<open>std::cin\<close>: the stream and the objects as it leaves
  them, or the exception thrown.\<close>

definition get_line_fill :: "obj list \<Rightarrow> istream \<Rightarrow> exn + istream \<times> obj list" where
  "get_line_fill t cin0 =
     (case getline cin0 of
        (is, s) \<Rightarrow>
          if eof is then Inl Eof_exception
          else if \<not> good is then Inr (is, t)
          else if single_string_empty s t then Inr (setstate ios_eofbit is, t)
          else
            (case fill t (istringstream s) of
               (ss, t') \<Rightarrow>
                 (let ss' = (if in_avail ss = 0 then clear (ios_or (rdstate ss) ios_eofbit) ss
                             else ss)
                  in Inr (setstate (rdstate ss') is, t'))))"

definition condition_errors :: "obj \<Rightarrow> (obj \<Rightarrow> bool) \<Rightarrow> bool" where
  "condition_errors t f = (\<not> f t)"

text \<open>The console: \<^verbatim>\<open>std::cin\<close>, and what has been written to \<^verbatim>\<open>std::cout\<close> and
  \<^verbatim>\<open>std::cerr\<close>.\<close>

record world =
  cin :: istream
  cout :: string
  cerr :: string

text \<open>
  \<^verbatim>\<open>ask_for_impl\<close>: one attempt. The result is the returned flag, the objects as the
  attempt leaves them and the console; the exception of \<^verbatim>\<open>get_line_fill\<close> passes
  through. The pack expansion \<^verbatim>\<open>(errors = condition_errors(t, condition), 0)...\<close>
  assigns \<^verbatim>\<open>errors\<close> once per object, left to right.
\<close>

definition ask_for_impl ::
  "string \<Rightarrow> (obj \<Rightarrow> bool) \<Rightarrow> string \<Rightarrow> string \<Rightarrow> obj list \<Rightarrow> world
     \<Rightarrow> exn + bool \<times> obj list \<times> world" where
  "ask_for_impl message condition condition_error parse_error t w =
     (let w1 = w\<lparr>cout := cout w @ message\<rparr> in
      case get_line_fill t (cin w1) of
        Inl e \<Rightarrow> Inl e
      | Inr (is, t') \<Rightarrow>
          if bad is then
            Inr (False, t', w1\<lparr>cerr := cerr w1 @ ''Cannot read from stream'' @ [newline],
                               cin := clear goodbit is\<rparr>)
          else if fail is then
            Inr (False, t', w1\<lparr>cout := cout w1 @ parse_error @ [newline],
                               cin := clear goodbit is\<rparr>)
          else if \<not> eof is then
            Inr (False, t', w1\<lparr>cout := cout w1 @ ''Error: excess input'' @ [newline],
                               cin := clear goodbit is\<rparr>)
          else
            (let errors = foldl (\<lambda>errors x. condition_errors x condition) True t' in
             if errors then
               Inr (False, t', w1\<lparr>cout := cout w1 @ condition_error @ [newline],
                                  cin := clear goodbit is\<rparr>)
             else Inr (True, t', w1\<lparr>cin := clear goodbit is\<rparr>)))"

text \<open>
  \<^verbatim>\<open>ask_for\<close>: the \<^verbatim>\<open>while (true)\<close> loop, which both the single form
  (one type) and the tuple form (two types or more) are; each round starts from
  default-constructed objects. The result is the objects of the accepted attempt, or the
  exception.
\<close>

function ask_for ::
  "string \<Rightarrow> (obj \<Rightarrow> bool) \<Rightarrow> string \<Rightarrow> string \<Rightarrow> ty list \<Rightarrow> world
     \<Rightarrow> exn + obj list \<times> world" where
  "ask_for message condition condition_error parse_error Ts w =
     (case ask_for_impl message condition condition_error parse_error (map default_obj Ts) w of
        Inl e \<Rightarrow> Inl e
      | Inr (ok, t, w') \<Rightarrow>
          if ok then Inr (t, w')
          else ask_for message condition condition_error parse_error Ts w')"
  by pat_completeness auto

lemma getline_good:
  assumes "getline is = (is', s)" and "good is" and "\<not> eof is'"
  shows "rdbuf is = s @ newline # rdbuf is'" and "good is'" and "newline \<notin> set s"
proof -
  let ?d = "dropWhile (\<lambda>c. c \<noteq> newline) (rdbuf is)"
  have "?d \<noteq> []"
  proof
    assume "?d = []"
    with assms(1,2) have "eof is'"
      by (auto simp: getline_def Let_def eof_def setstate_def clear_def ios_or_def ios_eofbit_def)
    with assms(3) show False by simp
  qed
  then obtain d rest where d: "?d = d # rest" by (cases ?d) auto
  have "\<not> (hd ?d \<noteq> newline)" using \<open>?d \<noteq> []\<close> by (rule hd_dropWhile)
  with d have dn: "d = newline" by simp
  from assms(1,2) d have is': "is' = is\<lparr>rdbuf := rest\<rparr>"
    and s: "s = takeWhile (\<lambda>c. c \<noteq> newline) (rdbuf is)"
    by (simp_all add: getline_def Let_def)
  have "rdbuf is = takeWhile (\<lambda>c. c \<noteq> newline) (rdbuf is) @ ?d" by simp
  with d dn s is' show "rdbuf is = s @ newline # rdbuf is'" by simp
  from is' assms(2) show "good is'" by (simp add: good_def)
  from s show "newline \<notin> set s" by (auto dest: set_takeWhileD)
qed

lemma getline_not_good:
  "\<not> good is \<Longrightarrow> getline is = (setstate ios_failbit is, [])"
  by (simp add: getline_def)

lemma get_line_fill_progress:
  assumes "get_line_fill t is = Inr (is', t')"
  shows "if good is then length (rdbuf is') < length (rdbuf is) else rdbuf is' = rdbuf is"
proof (cases "getline is")
  case (Pair is1 s)
  from assms Pair have ne: "\<not> eof is1"
    by (auto simp: get_line_fill_def split: if_splits)
  show ?thesis
  proof (cases "good is")
    case False
    with Pair have "is1 = setstate ios_failbit is" by (simp add: getline_not_good)
    moreover then have "\<not> good is1" by (simp add: good_def setstate_def clear_def ios_or_def ios_failbit_def goodbit_def)
    ultimately show ?thesis using assms Pair ne False
      by (auto simp: get_line_fill_def)
  next
    case True
    note g = getline_good [OF Pair True ne]
    from assms Pair ne g(2) have "rdbuf is' = rdbuf is1"
      by (auto simp: get_line_fill_def Let_def split: if_splits prod.splits)
    with g(1) True show ?thesis by simp
  qed
qed

lemma ask_for_impl_progress:
  assumes "ask_for_impl message condition condition_error parse_error t w = Inr (ok, t', w')"
  shows "good (cin w')"
    and "if good (cin w) then length (rdbuf (cin w')) < length (rdbuf (cin w))
         else rdbuf (cin w') = rdbuf (cin w)"
proof -
  from assms obtain is' where glf: "get_line_fill t (cin w) = Inr (is', t')"
    and w': "cin w' = clear goodbit is'"
    by (auto simp: ask_for_impl_def Let_def split: sum.splits if_splits)
  from w' show "good (cin w')" by (simp add: good_def)
  from get_line_fill_progress [OF glf] w'
  show "if good (cin w) then length (rdbuf (cin w')) < length (rdbuf (cin w))
         else rdbuf (cin w') = rdbuf (cin w)" by simp
qed

termination ask_for
proof (relation "measure (\<lambda>(message, condition, condition_error, parse_error, Ts, w).
          length (rdbuf (cin w)) + (if good (cin w) then 0 else 1))", goal_cases)
  case 1
  show ?case by simp
next
  case (2 message condition condition_error parse_error Ts w x2 ok y t w')
  then have "ask_for_impl message condition condition_error parse_error (map default_obj Ts) w
      = Inr (ok, t, w')" by simp
  from ask_for_impl_progress [OF this] show ?case by (auto split: if_splits)
qed

section \<open>Notions the statements use\<close>

text \<open>The condition of the forms of \<^verbatim>\<open>ask_for\<close> that take none:
  \<^verbatim>\<open>[](auto) { return true; }\<close>.\<close>

definition always_true :: "obj \<Rightarrow> bool" where
  "always_true t = True"

text \<open>A console whose input holds the given characters and then ends, with nothing
  written yet.\<close>

definition console :: "string \<Rightarrow> world" where
  "console s = \<lparr>cin = istringstream s, cout = [], cerr = []\<rparr>"

text \<open>The tokens of a line: its maximal runs of characters that are not whitespace.\<close>

function tokens :: "string \<Rightarrow> string list" where
  "tokens s =
     (case dropWhile isspace s of
        [] \<Rightarrow> []
      | c # cs \<Rightarrow> takeWhile (\<lambda>c. \<not> isspace c) (c # cs) # tokens (dropWhile (\<lambda>c. \<not> isspace c) cs))"
  by pat_completeness auto

termination tokens
proof (relation "measure length", goal_cases)
  case 1
  show ?case by simp
next
  case (2 s c cs)
  have "length (dropWhile (\<lambda>c. \<not> isspace c) cs) \<le> length cs" by (rule length_dropWhile_le)
  also have "length cs < length (dropWhile isspace s)" using 2 by simp
  also have "\<dots> \<le> length s" by (rule length_dropWhile_le)
  finally show ?case by simp
qed

text \<open>A condition for examples: an \<^verbatim>\<open>int\<close> has to be positive, an object of
  any other type passes.\<close>

fun positive_int :: "obj \<Rightarrow> bool" where
  "positive_int (Scalar IntT (IntV n)) = (0 < n)"
| "positive_int t = True"

text \<open>One round of the loop of \<^verbatim>\<open>ask_for\<close> that is not the last: the attempt
  returns false and leaves the console \<open>w'\<close>.\<close>

definition retries ::
  "string \<Rightarrow> (obj \<Rightarrow> bool) \<Rightarrow> string \<Rightarrow> string \<Rightarrow> ty list \<Rightarrow> world \<Rightarrow> world \<Rightarrow> bool" where
  "retries message condition condition_error parse_error Ts w w' =
     (\<exists>t. ask_for_impl message condition condition_error parse_error (map default_obj Ts) w
            = Inr (False, t, w'))"



text \<open>What holds of a string stream throughout a fill: \<^verbatim>\<open>badbit\<close> is never set,
  and \<^verbatim>\<open>eofbit\<close> is set only once every character has been read.\<close>

definition stream_ok :: "istream \<Rightarrow> bool" where
  "stream_ok s = (\<not> badbit (rdstate s) \<and> (eofbit (rdstate s) \<longrightarrow> rdbuf s = []))"

declare ask_for.simps [simp del] vector_loop.simps [simp del] tokens.simps [simp del]

section \<open>Properties of the stream operations\<close>

lemmas flag_defs = good_def eof_def fail_def bad_def setstate_def clear_def ios_or_def ios_xor_def
  ios_eofbit_def ios_failbit_def goodbit_def

lemma stream_ok_istringstream: "stream_ok (istringstream s)"
  by (simp add: stream_ok_def istringstream_def goodbit_def)

lemma sentry_ok: "stream_ok s \<Longrightarrow> stream_ok (snd (sentry s))"
  by (auto simp: stream_ok_def sentry_def flag_defs split: list.splits)


lemma extract_scalar_ok: "stream_ok s \<Longrightarrow> stream_ok (fst (extract_scalar T t s))"
proof (cases "sentry s")
  case (Pair ok s1)
  assume "stream_ok s"
  from sentry_ok [OF this] Pair have ok1: "stream_ok s1" by simp
  show ?thesis
  proof (cases ok)
    case False
    with Pair ok1 show ?thesis
      by (cases T) (simp_all add: extract_int_def extract_string_def extract_char_def)
  next
    case True
    from Pair True have sp: "sentry s = (True, s1)" by simp
    from sentry_True(1,2) [OF sp] have g1: "rdstate s1 = goodbit" by (simp add: good_def)
    show ?thesis
    proof (cases T)
      case IntT
      with sp g1 show ?thesis
        by (auto simp: extract_int_def Let_def stream_ok_def flag_defs)
    next
      case StringT
      with sp g1 show ?thesis
        by (auto simp: extract_string_def Let_def stream_ok_def flag_defs)
    next
      case CharT
      with sp g1 show ?thesis
        by (auto simp: extract_char_def Let_def stream_ok_def flag_defs split: list.splits)
    qed
  qed
qed


lemma extract_scalar_stream: "fst (extract_scalar T t s) = fst (extract_scalar T t' s)"
  by (cases T)
     (auto simp: extract_int_def extract_string_def extract_char_def Let_def
       split: prod.splits bool.splits list.splits)

lemma input_stream_ok: "stream_ok s \<Longrightarrow> stream_ok (fst (input_stream T s xs))"
proof (induction xs arbitrary: s)
  case Nil
  then show ?case by simp
next
  case (Cons x xs)
  from extract_scalar_ok [OF Cons.prems] have "stream_ok (fst (extract_scalar T x s))" .
  from Cons.IH [OF this] show ?case by (simp add: split_beta)
qed


lemma vector_loop_ok: "stream_ok s \<Longrightarrow> stream_ok (fst (vector_loop T s v))"
proof (induction T s v rule: vector_loop.induct)
  case (1 T "is" vector)
  obtain is' t where e: "extract_scalar T (default_scalar T) is = (is', t)"
    by (cases "extract_scalar T (default_scalar T) is")
  from extract_scalar_ok [OF "1.prems", of T "default_scalar T"] e have ok': "stream_ok is'" by simp
  show ?case
  proof (cases "fail is'")
    case True
    with e ok' show ?thesis by (simp add: vector_loop.simps [of T "is" vector])
  next
    case False
    from "1.IH" [OF e [symmetric] False ok'] e False show ?thesis
      by (simp add: vector_loop.simps [of T "is" vector])
  qed
qed

lemma vector_loop_fail: "fail (fst (vector_loop T s v))"
proof (induction T s v rule: vector_loop.induct)
  case (1 T "is" vector)
  obtain is' t where e: "extract_scalar T (default_scalar T) is = (is', t)"
    by (cases "extract_scalar T (default_scalar T) is")
  show ?case
  proof (cases "fail is'")
    case True
    with e show ?thesis by (simp add: vector_loop.simps [of T "is" vector])
  next
    case False
    from "1.IH" [OF e [symmetric] False] e False show ?thesis
      by (simp add: vector_loop.simps [of T "is" vector])
  qed
qed

lemma extract_vector_ok:
  assumes "stream_ok s"
  shows "stream_ok (fst (extract_vector T s v))" and "\<not> fail (fst (extract_vector T s v))"
proof -
  obtain s' v' where l: "vector_loop T s v = (s', v')" by (cases "vector_loop T s v")
  from vector_loop_ok [OF assms, of T v] l have ok: "stream_ok s'" by simp
  from vector_loop_fail [of T s v] l have f: "fail s'" by simp
  from ok f have fb: "failbit (rdstate s')" and nb: "\<not> badbit (rdstate s')"
    by (auto simp: stream_ok_def fail_def)
  from l f have r: "fst (extract_vector T s v) = clear (ios_xor (rdstate s') ios_failbit) s'"
    by (simp add: extract_vector_def)
  from ok fb nb show "stream_ok (fst (extract_vector T s v))"
    unfolding r by (simp add: stream_ok_def flag_defs)
  from fb nb show "\<not> fail (fst (extract_vector T s v))"
    unfolding r by (simp add: flag_defs)
qed

lemma extract_obj_ok: "stream_ok s \<Longrightarrow> stream_ok (fst (extract_obj t s))"
  by (cases t) (simp_all add: split_beta extract_scalar_ok input_stream_ok extract_vector_ok)

lemma fill_ok: "stream_ok s \<Longrightarrow> stream_ok (fst (fill t s))"
proof (induction t arbitrary: s)
  case Nil
  then show ?case by simp
next
  case (Cons x xs)
  from extract_obj_ok [OF Cons.prems] have "stream_ok (fst (extract_obj x s))" .
  from Cons.IH [OF this] show ?case by (simp add: split_beta)
qed

lemma ios_or_goodbit [simp]: "ios_or goodbit f = f"
  by (simp add: ios_or_def goodbit_def)

lemma getline_line:
  assumes "good is" and "rdbuf is = line @ newline # rest" and "newline \<notin> set line"
  shows "getline is = (is\<lparr>rdbuf := rest\<rparr>, line)"
proof -
  from assms(3) have "takeWhile (\<lambda>c. c \<noteq> newline) (line @ newline # rest) = line"
    by (subst takeWhile_append2) auto
  moreover from assms(3) have "dropWhile (\<lambda>c. c \<noteq> newline) (line @ newline # rest) = newline # rest"
    by (subst dropWhile_append2) auto
  ultimately show ?thesis using assms(1,2) by (simp add: getline_def)
qed

lemma get_line_fill_line:
  assumes "good is" and "rdbuf is = line @ newline # rest" and "newline \<notin> set line"
  shows "get_line_fill t is =
     (if single_string_empty line t then Inr (\<lparr>rdbuf = rest, rdstate = ios_eofbit\<rparr>, t)
      else Inr (\<lparr>rdbuf = rest,
                  rdstate = (if rdbuf (fst (fill t (istringstream line))) = []
                             then ios_or (rdstate (fst (fill t (istringstream line)))) ios_eofbit
                             else rdstate (fst (fill t (istringstream line))))\<rparr>,
                snd (fill t (istringstream line))))"
proof -
  from assms(1) have st: "rdstate is = goodbit" by (simp add: good_def)
  have g: "good (is\<lparr>rdbuf := rest\<rparr>)" "\<not> eof (is\<lparr>rdbuf := rest\<rparr>)"
    using st by (simp_all add: good_def eof_def goodbit_def)
  have eq: "is\<lparr>rdbuf := rest\<rparr> = \<lparr>rdbuf = rest, rdstate = goodbit\<rparr>"
    using st by simp
  show ?thesis
    unfolding get_line_fill_def getline_line [OF assms]
    using g by (simp add: eq split_beta Let_def in_avail_def setstate_def clear_def)
qed

lemma errors_last:
  "foldl (\<lambda>errors x. condition_errors x condition) True t
     = (if t = [] then True else condition_errors (last t) condition)"
  by (induction t rule: rev_induct) simp_all

lemma ask_for_impl_line:
  assumes "good (cin w)" and "rdbuf (cin w) = line @ newline # rest" and "newline \<notin> set line"
    and "\<not> single_string_empty line t" and "fill t (istringstream line) = (ss, t')"
  shows "ask_for_impl message condition condition_error parse_error t w =
     (if fail ss then
        Inr (False, t', w\<lparr>cout := cout w @ message @ parse_error @ [newline],
                           cin := \<lparr>rdbuf = rest, rdstate = goodbit\<rparr>\<rparr>)
      else if rdbuf ss \<noteq> [] then
        Inr (False, t', w\<lparr>cout := cout w @ message @ ''Error: excess input'' @ [newline],
                           cin := \<lparr>rdbuf = rest, rdstate = goodbit\<rparr>\<rparr>)
      else if foldl (\<lambda>errors x. condition_errors x condition) True t' then
        Inr (False, t', w\<lparr>cout := cout w @ message @ condition_error @ [newline],
                           cin := \<lparr>rdbuf = rest, rdstate = goodbit\<rparr>\<rparr>)
      else Inr (True, t', w\<lparr>cout := cout w @ message,
                              cin := \<lparr>rdbuf = rest, rdstate = goodbit\<rparr>\<rparr>))"
proof -
  from fill_ok [OF stream_ok_istringstream, of t line] assms(5)
  have ok: "\<not> badbit (rdstate ss)" "eofbit (rdstate ss) \<Longrightarrow> rdbuf ss = []"
    by (simp_all add: stream_ok_def)
  have glf: "get_line_fill t (cin w) =
      Inr (\<lparr>rdbuf = rest, rdstate = (if rdbuf ss = [] then ios_or (rdstate ss) ios_eofbit
                                       else rdstate ss)\<rparr>, t')"
    using get_line_fill_line [OF assms(1-3), of t] assms(4,5) by simp
  show ?thesis
  proof (cases "fail ss")
    case True
    with ok(1) glf show ?thesis
      by (simp add: ask_for_impl_def Let_def bad_def fail_def clear_def ios_or_def ios_eofbit_def)
  next
    case False
    note nf = this
    show ?thesis
    proof (cases "rdbuf ss = []")
      case True
      with nf ok(1) glf show ?thesis
        by (simp add: ask_for_impl_def Let_def bad_def fail_def eof_def clear_def ios_or_def
            ios_eofbit_def)
    next
      case False
      with ok(2) have "\<not> eofbit (rdstate ss)" by blast
      with False nf ok(1) glf show ?thesis
        by (simp add: ask_for_impl_def Let_def bad_def fail_def eof_def clear_def)
    qed
  qed
qed

lemma ask_for_retry:
  assumes "ask_for_impl message condition condition_error parse_error (map default_obj Ts) w
             = Inr (False, t, w')"
  shows "ask_for message condition condition_error parse_error Ts w
           = ask_for message condition condition_error parse_error Ts w'"
  by (subst ask_for.simps) (simp add: assms)

lemma ask_for_accept:
  assumes "ask_for_impl message condition condition_error parse_error (map default_obj Ts) w
             = Inr (True, t, w')"
  shows "ask_for message condition condition_error parse_error Ts w = Inr (t, w')"
  by (subst ask_for.simps) (simp add: assms)

section \<open>The claims\<close>

text \<open>An attempt is stated on a console whose \<^verbatim>\<open>std::cin\<close> is good and holds a line,
  its line feed and the rest of the input; the theorems give the flag \<^verbatim>\<open>ask_for_impl\<close>
  returns, the objects and the console after the attempt, and how \<^verbatim>\<open>ask_for\<close> goes
  on.\<close>

lemma console_simps [simp]:
  "good (cin (console s))" "rdbuf (cin (console s)) = s" "cout (console s) = []"
  "cerr (console s) = []"
  by (simp_all add: console_def istringstream_def good_def)

text \<open>
  C5: for a request of one \<^verbatim>\<open>std::string\<close>, an empty line is a successful fill:
  \<^verbatim>\<open>get_line_fill\<close> leaves the string empty and the stream at \<^verbatim>\<open>eofbit\<close>
  alone (no parse failure, no excess input), and with a condition that accepts the empty
  string \<^verbatim>\<open>ask_for\<close> returns it from that attempt, having written the prompt only.
\<close>

theorem single_string_empty_line_returns_empty:
  assumes "good (cin w)" and "rdbuf (cin w) = newline # rest"
    and "condition (Scalar StringT (StringV []))"
  shows "get_line_fill [Scalar StringT (StringV [])] (cin w)
           = Inr (\<lparr>rdbuf = rest, rdstate = ios_eofbit\<rparr>, [Scalar StringT (StringV [])])
       \<and> ask_for message condition condition_error parse_error [ScalarT StringT] w
           = Inr ([Scalar StringT (StringV [])],
                  w\<lparr>cout := cout w @ message, cin := \<lparr>rdbuf = rest, rdstate = goodbit\<rparr>\<rparr>)"
proof -
  have line: "rdbuf (cin w) = [] @ newline # rest" "newline \<notin> set []"
    using assms(2) by simp_all
  have glf: "get_line_fill [Scalar StringT (StringV [])] (cin w)
           = Inr (\<lparr>rdbuf = rest, rdstate = ios_eofbit\<rparr>, [Scalar StringT (StringV [])])"
    using get_line_fill_line [OF assms(1) line, of "[Scalar StringT (StringV [])]"] by simp
  then have "ask_for_impl message condition condition_error parse_error
        (map default_obj [ScalarT StringT]) w
      = Inr (True, [Scalar StringT (StringV [])],
             w\<lparr>cout := cout w @ message, cin := \<lparr>rdbuf = rest, rdstate = goodbit\<rparr>\<rparr>)"
    using assms(3)
    by (simp add: ask_for_impl_def Let_def bad_def fail_def eof_def clear_def ios_eofbit_def
        condition_errors_def)
  from ask_for_accept [OF this] glf show ?thesis by simp
qed

theorem single_string_empty_line_witness:
  "good (cin (console [newline])) \<and> always_true (Scalar StringT (StringV []))
   \<and> ask_for ''Enter input: '' always_true ''Error: unmet condition'' ''Error: parse error''
        [ScalarT StringT] (console [newline])
      = Inr ([Scalar StringT (StringV [])],
             \<lparr>cin = \<lparr>rdbuf = [], rdstate = goodbit\<rparr>, cout = ''Enter input: '', cerr = []\<rparr>)"
  using single_string_empty_line_returns_empty [of "console [newline]" "[]" always_true
      "''Enter input: ''" "''Error: unmet condition''" "''Error: parse error''"]
  by (simp add: always_true_def)

lemma fill_single:
  "fill [t] ss = (fst (extract_obj t ss), [snd (extract_obj t ss)])"
  by (simp add: split_beta)

lemma sentry_istringstream_Nil:
  "dropWhile isspace line = [] \<Longrightarrow>
   sentry (istringstream line) = (False, \<lparr>rdbuf = [], rdstate = ios_or ios_eofbit ios_failbit\<rparr>)"
  by (simp add: sentry_def istringstream_def good_def setstate_def clear_def
      del: dropWhile_eq_Nil_conv)

lemma sentry_istringstream_Cons:
  "dropWhile isspace line = c # cs \<Longrightarrow>
   sentry (istringstream line) = (True, \<lparr>rdbuf = c # cs, rdstate = goodbit\<rparr>)"
  by (simp add: sentry_def istringstream_def good_def)

text \<open>
  C10: for a request of one \<^verbatim>\<open>std::string\<close>, a line that is not empty and holds
  whitespace only does not take the empty-line case: the extraction finds no token, the
  attempt writes the parse error message and returns false with the string untouched, and
  \<^verbatim>\<open>ask_for\<close> goes on with the next line.
\<close>

theorem single_string_whitespace_line_is_parse_failure:
  assumes "good (cin w)" and "rdbuf (cin w) = line @ newline # rest" and "newline \<notin> set line"
    and "line \<noteq> []" and "list_all isspace line"
  shows "ask_for_impl message condition condition_error parse_error [Scalar StringT a] w
           = Inr (False, [Scalar StringT a],
                  w\<lparr>cout := cout w @ message @ parse_error @ [newline],
                    cin := \<lparr>rdbuf = rest, rdstate = goodbit\<rparr>\<rparr>)
       \<and> ask_for message condition condition_error parse_error [ScalarT StringT] w
           = ask_for message condition condition_error parse_error [ScalarT StringT]
               (w\<lparr>cout := cout w @ message @ parse_error @ [newline],
                  cin := \<lparr>rdbuf = rest, rdstate = goodbit\<rparr>\<rparr>)"
proof -
  from assms(5) have "dropWhile isspace line = []"
    by (simp add: list_all_iff)
  from sentry_istringstream_Nil [OF this] have f: "\<And>a. fill [Scalar StringT a] (istringstream line)
      = (\<lparr>rdbuf = [], rdstate = ios_or ios_eofbit ios_failbit\<rparr>, [Scalar StringT a])"
    by (simp add: extract_string_def)
  have nse: "\<And>a. \<not> single_string_empty line [Scalar StringT a]"
    using assms(4) by simp
  have fl: "fail \<lparr>rdbuf = [], rdstate = ios_or ios_eofbit ios_failbit\<rparr>"
    by (simp add: fail_def ios_or_def ios_failbit_def)
  have impl: "\<And>a. ask_for_impl message condition condition_error parse_error [Scalar StringT a] w
           = Inr (False, [Scalar StringT a],
                  w\<lparr>cout := cout w @ message @ parse_error @ [newline],
                    cin := \<lparr>rdbuf = rest, rdstate = goodbit\<rparr>\<rparr>)"
    using ask_for_impl_line [OF assms(1-3) nse f] fl by simp
  have "ask_for_impl message condition condition_error parse_error
          (map default_obj [ScalarT StringT]) w
           = Inr (False, [Scalar StringT (StringV [])],
                  w\<lparr>cout := cout w @ message @ parse_error @ [newline],
                    cin := \<lparr>rdbuf = rest, rdstate = goodbit\<rparr>\<rparr>)"
    using impl [of "StringV []"] by simp
  from ask_for_retry [OF this] impl [of a] show ?thesis by simp
qed

theorem single_string_whitespace_line_witness:
  "list_all isspace ''  '' \<and>
   ask_for_impl ''Enter input: '' always_true ''Error: unmet condition'' ''Error: parse error''
       [Scalar StringT (StringV [])] (console (''  '' @ newline # ''ok'' @ [newline]))
     = Inr (False, [Scalar StringT (StringV [])],
            \<lparr>cin = \<lparr>rdbuf = ''ok'' @ [newline], rdstate = goodbit\<rparr>,
               cout = ''Enter input: Error: parse error'' @ [newline], cerr = []\<rparr>)"
proof -
  have h: "list_all isspace ''  ''" "newline \<notin> set ''  ''" "''  '' \<noteq> []"
    by (simp_all add: isspace_def newline_def)
  have c: "good (cin (console (''  '' @ newline # ''ok'' @ [newline])))"
    "rdbuf (cin (console (''  '' @ newline # ''ok'' @ [newline]))) = ''  '' @ newline # ''ok'' @ [newline]"
    by simp_all
  from single_string_whitespace_line_is_parse_failure [OF c h(2,3,1),
      of "''Enter input: ''" always_true "''Error: unmet condition''" "''Error: parse error''"
         "StringV []"] h(1)
  show ?thesis by (simp add: console_def)
qed

lemma tokens_Nil: "dropWhile isspace s = [] \<Longrightarrow> tokens s = []"
  by (subst tokens.simps) (simp del: dropWhile_eq_Nil_conv)

lemma tokens_Cons:
  "dropWhile isspace s = c # cs \<Longrightarrow>
   tokens s = takeWhile (\<lambda>c. \<not> isspace c) (c # cs) # tokens (dropWhile (\<lambda>c. \<not> isspace c) cs)"
  by (subst tokens.simps) simp

text \<open>
  C9: for a request of one \<^verbatim>\<open>std::string\<close>, a line of two tokens or more gives the
  string its first token only, and the attempt is turned down as excess input: the fixed
  message is written, \<^verbatim>\<open>ask_for_impl\<close> returns false, and \<^verbatim>\<open>ask_for\<close> goes on
  with the next line, so that such a line is never returned as one string.
\<close>

theorem single_string_two_tokens_is_excess_input:
  assumes "good (cin w)" and "rdbuf (cin w) = line @ newline # rest" and "newline \<notin> set line"
    and "2 \<le> length (tokens line)"
  shows "ask_for_impl message condition condition_error parse_error [Scalar StringT a] w
           = Inr (False, [Scalar StringT (StringV (hd (tokens line)))],
                  w\<lparr>cout := cout w @ message @ ''Error: excess input'' @ [newline],
                    cin := \<lparr>rdbuf = rest, rdstate = goodbit\<rparr>\<rparr>)
       \<and> ask_for message condition condition_error parse_error [ScalarT StringT] w
           = ask_for message condition condition_error parse_error [ScalarT StringT]
               (w\<lparr>cout := cout w @ message @ ''Error: excess input'' @ [newline],
                  cin := \<lparr>rdbuf = rest, rdstate = goodbit\<rparr>\<rparr>)"
proof -
  from assms(4) have "tokens line \<noteq> []" by auto
  with tokens_Nil [of line] obtain c cs where d: "dropWhile isspace line = c # cs"
    by (cases "dropWhile isspace line") auto
  have "\<not> isspace (hd (dropWhile isspace line))"
    by (rule hd_dropWhile) (simp add: d del: dropWhile_eq_Nil_conv)
  with d have nsp: "\<not> isspace c" by simp
  let ?tok = "takeWhile (\<lambda>c. \<not> isspace c) (c # cs)"
  let ?rest = "dropWhile (\<lambda>c. \<not> isspace c) cs"
  from tokens_Cons [OF d] have tk: "tokens line = ?tok # tokens ?rest" .
  with assms(4) have "tokens ?rest \<noteq> []" by auto
  with tokens_Nil [of ?rest] have "dropWhile isspace ?rest \<noteq> []" by blast
  then have rest: "?rest \<noteq> []" by (metis dropWhile.simps(1))
  have f: "\<And>a. fill [Scalar StringT a] (istringstream line)
      = (\<lparr>rdbuf = ?rest, rdstate = goodbit\<rparr>, [Scalar StringT (StringV (hd (tokens line)))])"
    using sentry_istringstream_Cons [OF d] nsp rest
    by (simp add: extract_string_def Let_def tk del: dropWhile_eq_Nil_conv)
  have nse: "\<And>a. \<not> single_string_empty line [Scalar StringT a]"
    using d by auto
  have nf: "\<not> fail \<lparr>rdbuf = ?rest, rdstate = goodbit\<rparr>"
    by (simp add: fail_def goodbit_def)
  have impl: "\<And>a. ask_for_impl message condition condition_error parse_error [Scalar StringT a] w
           = Inr (False, [Scalar StringT (StringV (hd (tokens line)))],
                  w\<lparr>cout := cout w @ message @ ''Error: excess input'' @ [newline],
                    cin := \<lparr>rdbuf = rest, rdstate = goodbit\<rparr>\<rparr>)"
    using ask_for_impl_line [OF assms(1-3) nse f] nf rest
    by (simp del: dropWhile_eq_Nil_conv)
  have "ask_for_impl message condition condition_error parse_error
          (map default_obj [ScalarT StringT]) w
           = Inr (False, [Scalar StringT (StringV (hd (tokens line)))],
                  w\<lparr>cout := cout w @ message @ ''Error: excess input'' @ [newline],
                    cin := \<lparr>rdbuf = rest, rdstate = goodbit\<rparr>\<rparr>)"
    using impl [of "StringV []"] by simp
  from ask_for_retry [OF this] impl [of a] show ?thesis by simp
qed

theorem single_string_two_tokens_witness:
  "2 \<le> length (tokens ''hello world'') \<and>
   ask_for_impl ''Enter input: '' always_true ''Error: unmet condition'' ''Error: parse error''
       [Scalar StringT (StringV [])] (console (''hello world'' @ newline # ''hello'' @ [newline]))
     = Inr (False, [Scalar StringT (StringV ''hello'')],
            \<lparr>cin = \<lparr>rdbuf = ''hello'' @ [newline], rdstate = goodbit\<rparr>,
               cout = ''Enter input: Error: excess input'' @ [newline], cerr = []\<rparr>)"
proof -
  have t: "tokens ''hello world'' = [''hello'', ''world'']" by code_simp
  have h: "2 \<le> length (tokens ''hello world'')" "newline \<notin> set ''hello world''"
    by (simp_all add: t newline_def)
  have c: "good (cin (console (''hello world'' @ newline # ''hello'' @ [newline])))"
    "rdbuf (cin (console (''hello world'' @ newline # ''hello'' @ [newline])))
       = ''hello world'' @ newline # ''hello'' @ [newline]"
    by simp_all
  from single_string_two_tokens_is_excess_input [OF c h(2,1),
      of "''Enter input: ''" always_true "''Error: unmet condition''" "''Error: parse error''"
         "StringV []"] h(1)
  show ?thesis by (simp add: console_def t)
qed









lemma get_line_fill_bad:
  assumes "bad is" and "\<not> eof is"
  shows "get_line_fill t is = Inr (setstate ios_failbit is, t)"
proof -
  from assms(1) have ng: "\<not> good is" by (auto simp: good_def bad_def goodbit_def)
  from assms(2) have "\<not> eof (setstate ios_failbit is)"
    by (simp add: eof_def setstate_def clear_def ios_or_def ios_failbit_def)
  moreover from assms(1) have "\<not> good (setstate ios_failbit is)"
    by (auto simp: flag_defs)
  ultimately show ?thesis
    by (simp add: get_line_fill_def getline_not_good [OF ng])
qed

text \<open>
  C8: when \<^verbatim>\<open>get_line_fill\<close> leaves \<^verbatim>\<open>std::cin\<close> with \<^verbatim>\<open>badbit\<close> set (and
  has not thrown for the end of the input), the attempt writes the fixed diagnostic to
  \<^verbatim>\<open>std::cerr\<close>, clears the flags of the stream and returns false, and
  \<^verbatim>\<open>ask_for\<close> tries again from the cleared stream: no abort, no value from that
  attempt.
\<close>

theorem bad_stream_is_reported_cleared_and_retried:
  assumes "get_line_fill (map default_obj Ts) (cin w) = Inr (is, t')" and "bad is"
  shows "ask_for_impl message condition condition_error parse_error (map default_obj Ts) w
           = Inr (False, t',
                  w\<lparr>cout := cout w @ message,
                    cerr := cerr w @ ''Cannot read from stream'' @ [newline],
                    cin := clear goodbit is\<rparr>)
       \<and> good (clear goodbit is)
       \<and> ask_for message condition condition_error parse_error Ts w
           = ask_for message condition condition_error parse_error Ts
               (w\<lparr>cout := cout w @ message,
                  cerr := cerr w @ ''Cannot read from stream'' @ [newline],
                  cin := clear goodbit is\<rparr>)"
proof -
  have impl: "ask_for_impl message condition condition_error parse_error (map default_obj Ts) w
           = Inr (False, t',
                  w\<lparr>cout := cout w @ message,
                    cerr := cerr w @ ''Cannot read from stream'' @ [newline],
                    cin := clear goodbit is\<rparr>)"
    using assms by (simp add: ask_for_impl_def)
  from ask_for_retry [OF impl] impl show ?thesis by (simp add: good_def)
qed

theorem bad_stream_witness:
  "get_line_fill (map default_obj [ScalarT IntT])
       (cin \<lparr>cin = \<lparr>rdbuf = ''7'' @ [newline],
                      rdstate = \<lparr>badbit = True, eofbit = False, failbit = False\<rparr>\<rparr>,
              cout = [], cerr = []\<rparr>)
     = Inr (\<lparr>rdbuf = ''7'' @ [newline],
              rdstate = \<lparr>badbit = True, eofbit = False, failbit = True\<rparr>\<rparr>,
            [Scalar IntT (IntV 0)])
   \<and> bad \<lparr>rdbuf = ''7'' @ [newline],
           rdstate = \<lparr>badbit = True, eofbit = False, failbit = True\<rparr>\<rparr>
   \<and> ask_for ''Enter input: '' always_true ''Error: unmet condition'' ''Error: parse error''
         [ScalarT IntT]
         \<lparr>cin = \<lparr>rdbuf = ''7'' @ [newline],
                  rdstate = \<lparr>badbit = True, eofbit = False, failbit = False\<rparr>\<rparr>,
            cout = [], cerr = []\<rparr>
     = Inr ([Scalar IntT (IntV 7)],
            \<lparr>cin = \<lparr>rdbuf = [], rdstate = goodbit\<rparr>,
               cout = ''Enter input: Enter input: '',
               cerr = ''Cannot read from stream'' @ [newline]\<rparr>)"
proof -
  let ?is = "\<lparr>rdbuf = ''7'' @ [newline],
               rdstate = \<lparr>badbit = True, eofbit = False, failbit = False\<rparr>\<rparr>"
  let ?is' = "\<lparr>rdbuf = ''7'' @ [newline],
               rdstate = \<lparr>badbit = True, eofbit = False, failbit = True\<rparr>\<rparr>"
  let ?w = "\<lparr>cin = ?is, cout = [], cerr = []\<rparr>"
  have g: "get_line_fill (map default_obj [ScalarT IntT]) (cin ?w)
      = Inr (?is', [Scalar IntT (IntV 0)])"
    using get_line_fill_bad [of ?is "map default_obj [ScalarT IntT]"]
    by (simp add: flag_defs)
  have b: "bad ?is'" by (simp add: bad_def)
  have r: "ask_for ''Enter input: '' always_true ''Error: unmet condition''
       ''Error: parse error'' [ScalarT IntT]
       (?w\<lparr>cout := cout ?w @ ''Enter input: '',
            cerr := cerr ?w @ ''Cannot read from stream'' @ [newline],
            cin := clear goodbit ?is'\<rparr>)
     = Inr ([Scalar IntT (IntV 7)],
            \<lparr>cin = \<lparr>rdbuf = [], rdstate = goodbit\<rparr>,
               cout = ''Enter input: Enter input: '',
               cerr = ''Cannot read from stream'' @ [newline]\<rparr>)"
    by code_simp
  from bad_stream_is_reported_cleared_and_retried [OF g b,
      of "''Enter input: ''" always_true "''Error: unmet condition''" "''Error: parse error''"]
  have "ask_for ''Enter input: '' always_true ''Error: unmet condition''
       ''Error: parse error'' [ScalarT IntT] ?w
     = Inr ([Scalar IntT (IntV 7)],
            \<lparr>cin = \<lparr>rdbuf = [], rdstate = goodbit\<rparr>,
               cout = ''Enter input: Enter input: '',
               cerr = ''Cannot read from stream'' @ [newline]\<rparr>)"
    unfolding r by simp
  with g b show ?thesis by simp
qed

lemma single_string_empty_fill_fails:
  assumes "single_string_empty line t"
  shows "fail (fst (fill t (istringstream line)))"
proof -
  from assms obtain a b where t: "t = a # b" by (cases t) auto
  with assms have b: "b = []" and l: "line = []" and s: "is_string a" by auto
  from s obtain v where a: "a = Scalar StringT v" by (cases a rule: is_string.cases) auto
  have "sentry (istringstream []) = (False, \<lparr>rdbuf = [], rdstate = ios_or ios_eofbit ios_failbit\<rparr>)"
    by (rule sentry_istringstream_Nil) simp
  then show ?thesis
    by (simp add: t b l a extract_string_def fail_def ios_or_def ios_failbit_def)
qed

text \<open>
  C3, as the code has it: for an attempt whose objects are all filled without a failure,
  the excess input message is written exactly when characters of the line remain unread,
  whitespace included. With nothing left unread the attempt goes on to the condition; a
  line with whitespace after its last token is turned down as excess input.
\<close>

theorem excess_input_iff_characters_remain:
  assumes "good (cin w)" and "rdbuf (cin w) = line @ newline # rest" and "newline \<notin> set line"
    and "fill t (istringstream line) = (ss, t')" and "\<not> fail ss"
  shows "ask_for_impl message condition condition_error parse_error t w =
     (if rdbuf ss \<noteq> [] then
        Inr (False, t', w\<lparr>cout := cout w @ message @ ''Error: excess input'' @ [newline],
                           cin := \<lparr>rdbuf = rest, rdstate = goodbit\<rparr>\<rparr>)
      else if foldl (\<lambda>errors x. condition_errors x condition) True t' then
        Inr (False, t', w\<lparr>cout := cout w @ message @ condition_error @ [newline],
                           cin := \<lparr>rdbuf = rest, rdstate = goodbit\<rparr>\<rparr>)
      else Inr (True, t', w\<lparr>cout := cout w @ message,
                              cin := \<lparr>rdbuf = rest, rdstate = goodbit\<rparr>\<rparr>))"
proof -
  from single_string_empty_fill_fails [of line t] assms(4,5)
  have nse: "\<not> single_string_empty line t" by auto
  from ask_for_impl_line [OF assms(1-3) nse assms(4)] assms(5) show ?thesis by simp
qed

theorem excess_input_witness:
  "fill [Scalar IntT (IntV 0)] (istringstream ''5 '')
     = (\<lparr>rdbuf = '' '', rdstate = goodbit\<rparr>, [Scalar IntT (IntV 5)])
   \<and> \<not> fail \<lparr>rdbuf = '' '', rdstate = goodbit\<rparr>
   \<and> ask_for_impl ''Enter input: '' always_true ''Error: unmet condition'' ''Error: parse error''
        [Scalar IntT (IntV 0)] (console (''5 '' @ newline # ''5'' @ [newline]))
      = Inr (False, [Scalar IntT (IntV 5)],
             \<lparr>cin = \<lparr>rdbuf = ''5'' @ [newline], rdstate = goodbit\<rparr>,
                cout = ''Enter input: Error: excess input'' @ [newline], cerr = []\<rparr>)"
proof -
  have f: "fill [Scalar IntT (IntV 0)] (istringstream ''5 '')
     = (\<lparr>rdbuf = '' '', rdstate = goodbit\<rparr>, [Scalar IntT (IntV 5)])"
    by code_simp
  have nf: "\<not> fail \<lparr>rdbuf = '' '', rdstate = goodbit\<rparr>"
    by (simp add: fail_def goodbit_def)
  have h: "newline \<notin> set ''5 ''" by (simp add: newline_def)
  have c: "good (cin (console (''5 '' @ newline # ''5'' @ [newline])))"
    "rdbuf (cin (console (''5 '' @ newline # ''5'' @ [newline])))
       = ''5 '' @ newline # ''5'' @ [newline]"
    by simp_all
  from excess_input_iff_characters_remain [OF c h f nf,
      of "''Enter input: ''" always_true "''Error: unmet condition''" "''Error: parse error''"]
    f nf
  show ?thesis by (simp add: console_def)
qed

text \<open>The claim C3 as the specification words it fails: after \<^verbatim>\<open>5\<close> has been read
  into the one \<^verbatim>\<open>int\<close> of the request, a single space is all that is left of the
  line, and the attempt is turned down as excess input.\<close>

theorem trailing_whitespace_is_excess_input:
  "fill [Scalar IntT (IntV 0)] (istringstream ''5 '')
     = (\<lparr>rdbuf = '' '', rdstate = goodbit\<rparr>, [Scalar IntT (IntV 5)])
   \<and> list_all isspace '' ''
   \<and> ask_for_impl ''Enter input: '' always_true ''Error: unmet condition'' ''Error: parse error''
        [Scalar IntT (IntV 0)] (console (''5 '' @ [newline]))
      = Inr (False, [Scalar IntT (IntV 5)],
             \<lparr>cin = \<lparr>rdbuf = [], rdstate = goodbit\<rparr>,
                cout = ''Enter input: Error: excess input'' @ [newline], cerr = []\<rparr>)"
  by code_simp





lemma ask_for_impl_accepts_on_last:
  assumes "good (cin w)" and "rdbuf (cin w) = line @ newline # rest" and "newline \<notin> set line"
    and "fill t (istringstream line) = (ss, t')" and "\<not> fail ss" and "rdbuf ss = []"
    and "t' \<noteq> []"
  shows "ask_for_impl message condition condition_error parse_error t w =
     (if condition (last t') then
        Inr (True, t', w\<lparr>cout := cout w @ message,
                          cin := \<lparr>rdbuf = rest, rdstate = goodbit\<rparr>\<rparr>)
      else
        Inr (False, t', w\<lparr>cout := cout w @ message @ condition_error @ [newline],
                           cin := \<lparr>rdbuf = rest, rdstate = goodbit\<rparr>\<rparr>))"
proof -
  from single_string_empty_fill_fails [of line t] assms(4,5)
  have nse: "\<not> single_string_empty line t" by auto
  from ask_for_impl_line [OF assms(1-3) nse assms(4)] assms(5-7) errors_last [of condition t']
  show ?thesis by (simp add: condition_errors_def)
qed

text \<open>
  C1: the specification has an attempt accepted only when every object passes the
  condition. The code assigns \<^verbatim>\<open>errors\<close> anew for each object, so that the last
  object alone decides: for the request of an \<^verbatim>\<open>int\<close> and a \<^verbatim>\<open>std::string\<close>
  with a condition that wants the integer positive, the line \<^verbatim>\<open>-5 hello\<close> is
  accepted and returned at once.
\<close>

theorem tuple_with_failing_first_object_is_returned:
  "\<not> positive_int (Scalar IntT (IntV (- 5)))
   \<and> ask_for ''Enter input: '' positive_int ''Error: unmet condition'' ''Error: parse error''
        [ScalarT IntT, ScalarT StringT] (console (''-5 hello'' @ [newline]))
      = Inr ([Scalar IntT (IntV (- 5)), Scalar StringT (StringV ''hello'')],
             \<lparr>cin = \<lparr>rdbuf = [], rdstate = goodbit\<rparr>, cout = ''Enter input: '', cerr = []\<rparr>)"
  by code_simp

lemma get_line_fill_throws_iff:
  "get_line_fill t is = Inl Eof_exception
     \<longleftrightarrow> (if good is then newline \<notin> set (rdbuf is) else eof is)"
proof (cases "good is")
  case False
  then have "getline is = (setstate ios_failbit is, [])" by (rule getline_not_good)
  moreover have "eof (setstate ios_failbit is) = eof is"
    by (simp add: eof_def setstate_def clear_def ios_or_def ios_failbit_def)
  moreover from False have "\<not> good (setstate ios_failbit is)"
    by (auto simp: flag_defs)
  ultimately show ?thesis using False by (simp add: get_line_fill_def)
next
  case True
  show ?thesis
  proof (cases "newline \<in> set (rdbuf is)")
    case True
    from split_list_first [OF this] obtain line rest
      where "rdbuf is = line @ newline # rest" and "newline \<notin> set line" by blast
    from get_line_fill_line [OF \<open>good is\<close> this, of t] True \<open>good is\<close> show ?thesis
      by (simp split: if_splits)
  next
    case False
    then have "dropWhile (\<lambda>c. c \<noteq> newline) (rdbuf is) = []" by auto
    then have "eof (fst (getline is))"
      using \<open>good is\<close>
      by (simp add: getline_def Let_def eof_def setstate_def clear_def ios_or_def ios_eofbit_def
          del: dropWhile_eq_Nil_conv)
    with False \<open>good is\<close> show ?thesis
      by (simp add: get_line_fill_def split_beta)
  qed
qed

text \<open>
  C4: the specification has the operation abort only when the input has ended before any
  character of the line, and use the text of a last line otherwise. The code throws
  whenever \<^verbatim>\<open>std::getline\<close> has set \<^verbatim>\<open>eofbit\<close>, which it also does after reading
  a last line that has no line feed: the input \<^verbatim>\<open>42\<close> is read as the line
  \<^verbatim>\<open>42\<close>, and \<^verbatim>\<open>get_line_fill\<close> throws instead of filling the \<^verbatim>\<open>int\<close>.
\<close>

theorem unterminated_last_line_throws:
  "getline (istringstream ''42'') = (\<lparr>rdbuf = [], rdstate = ios_eofbit\<rparr>, ''42'')
   \<and> get_line_fill [Scalar IntT (IntV 0)] (istringstream ''42'') = Inl Eof_exception
   \<and> ask_for ''Enter input: '' always_true ''Error: unmet condition'' ''Error: parse error''
        [ScalarT IntT] (console ''42'')
      = Inl Eof_exception"
  by code_simp

lemma ask_for_returns_accepted:
  "ask_for message condition condition_error parse_error Ts w = Inr (t, w') \<Longrightarrow>
   \<exists>w0. ask_for_impl message condition condition_error parse_error (map default_obj Ts) w0
          = Inr (True, t, w')"
proof (induction message condition condition_error parse_error Ts w rule: ask_for.induct)
  case (1 message condition condition_error parse_error Ts w)
  show ?case
  proof (cases "ask_for_impl message condition condition_error parse_error (map default_obj Ts) w")
    case (Inl e)
    with "1.prems" show ?thesis
      by (simp add: ask_for.simps [of message condition condition_error parse_error Ts w])
  next
    case (Inr r)
    obtain ok t1 w1 where r: "r = (ok, t1, w1)" by (cases r)
    show ?thesis
    proof (cases ok)
      case True
      with Inr r "1.prems" show ?thesis
        by (auto simp: ask_for.simps [of message condition condition_error parse_error Ts w])
    next
      case False
      with Inr r "1.prems"
      have "ask_for message condition condition_error parse_error Ts w1 = Inr (t, w')"
        by (simp add: ask_for.simps [of message condition condition_error parse_error Ts w])
      from "1.IH" [OF Inr r [symmetric] _ _ this] False show ?thesis by simp
    qed
  qed
qed

lemma ask_for_impl_accepted:
  assumes "ask_for_impl message condition condition_error parse_error t w = Inr (True, t', w')"
  shows "\<exists>is. get_line_fill t (cin w) = Inr (is, t') \<and> eof is \<and> \<not> fail is \<and> \<not> bad is
            \<and> \<not> foldl (\<lambda>errors x. condition_errors x condition) True t'"
  using assms by (auto simp: ask_for_impl_def Let_def split: sum.splits if_splits)

lemma ask_for_retries:
  "(retries message condition condition_error parse_error Ts ^^ n) w w' \<Longrightarrow>
   ask_for message condition condition_error parse_error Ts w
     = ask_for message condition condition_error parse_error Ts w'"
proof (induction n arbitrary: w')
  case 0
  then show ?case by simp
next
  case (Suc n)
  then obtain w1 where a: "(retries message condition condition_error parse_error Ts ^^ n) w w1"
    and b: "retries message condition condition_error parse_error Ts w1 w'" by auto
  from b obtain t where "ask_for_impl message condition condition_error parse_error
      (map default_obj Ts) w1 = Inr (False, t, w')" by (auto simp: retries_def)
  from ask_for_retry [OF this] Suc.IH [OF a] show ?case by simp
qed

lemma retries_any_number:
  "(retries message condition condition_error parse_error [ScalarT IntT] ^^ n)
     \<lparr>cin = \<lparr>rdbuf = concat (replicate n (''x'' @ [newline])) @ rest, rdstate = goodbit\<rparr>,
        cout = out, cerr = err\<rparr>
     \<lparr>cin = \<lparr>rdbuf = rest, rdstate = goodbit\<rparr>,
        cout = out @ concat (replicate n (message @ parse_error @ [newline])), cerr = err\<rparr>"
proof (induction n arbitrary: out)
  case 0
  show ?case by simp
next
  case (Suc n)
  let ?w = "\<lparr>cin = \<lparr>rdbuf = concat (replicate (Suc n) (''x'' @ [newline])) @ rest,
                      rdstate = goodbit\<rparr>, cout = out, cerr = err\<rparr>"
  have f: "fill [Scalar IntT (IntV 0)] (istringstream ''x'')
      = (\<lparr>rdbuf = ''x'', rdstate = ios_failbit\<rparr>, [Scalar IntT (IntV 0)])"
    by code_simp
  have c: "good (cin ?w)"
    "rdbuf (cin ?w) = ''x'' @ newline # concat (replicate n (''x'' @ [newline])) @ rest"
    "newline \<notin> set ''x''"
    by (simp_all add: good_def newline_def)
  have nse: "\<not> single_string_empty ''x'' [Scalar IntT (IntV 0)]" by simp
  have fl: "fail \<lparr>rdbuf = ''x'', rdstate = ios_failbit\<rparr>"
    by (simp add: fail_def ios_failbit_def)
  from ask_for_impl_line [OF c nse f, of message condition condition_error parse_error] fl
  have "retries message condition condition_error parse_error [ScalarT IntT] ?w
      \<lparr>cin = \<lparr>rdbuf = concat (replicate n (''x'' @ [newline])) @ rest, rdstate = goodbit\<rparr>,
         cout = out @ message @ parse_error @ [newline], cerr = err\<rparr>"
    by (simp add: retries_def)
  from relpowp_Suc_I2 [OF this Suc.IH [of "out @ message @ parse_error @ [newline]"]]
  show ?case by simp
qed

text \<open>
  C6: the specification has \<^verbatim>\<open>ask_for\<close> return only from an attempt in which every
  object was parsed and validated. The loop does return only from an accepted attempt and
  retries without a bound, but an accepted attempt of the tuple form has checked the last
  object alone (the defect of C1): after one parse failure, the line \<^verbatim>\<open>0 7\<close> is
  returned for a request of two integers that are to be positive.
\<close>

theorem loop_returns_object_that_fails_condition:
  "\<not> positive_int (Scalar IntT (IntV 0))
   \<and> ask_for ''Enter input: '' positive_int ''Error: unmet condition'' ''Error: parse error''
        [ScalarT IntT, ScalarT IntT] (console (''x'' @ newline # ''0 7'' @ [newline]))
      = Inr ([Scalar IntT (IntV 0), Scalar IntT (IntV 7)],
             \<lparr>cin = \<lparr>rdbuf = [], rdstate = goodbit\<rparr>,
                cout = ''Enter input: Error: parse error'' @ newline # ''Enter input: '',
                cerr = []\<rparr>)"
  by code_simp

end
